theory Spec2Isabelle
  imports Main
begin

section \<open>Data model of \<open>ec2_route_tables.py\<close>\<close>

text \<open>
  The module reads boto objects and plain dictionaries. Each becomes a record with the
  attributes the module touches. An attribute that boto leaves at \<open>None\<close> is an
  \<open>option\<close>. Identifiers are the provider's opaque strings.
\<close>

record route =
  destination_cidr_block :: "string option"
  gateway_id :: "string option"
  instance_id :: "string option"

record association =
  association_id :: string
  subnet_id :: "string option"
  main :: bool

record route_table =
  table_id :: string
  routes :: "route list"
  associations :: "association list"

record subnet =
  sn_id :: string
  cidr_block :: string

record gateway =
  igw_id :: string

record vpc =
  vpc_ident :: string
  vpc_cidr :: string

text \<open>A requested route is the dictionary \<open>{dest: ..., gw: ...}\<close>, a requested table
  the dictionary \<open>{subnets: [...], routes: [...]}\<close>.\<close>

record requested_route =
  dest :: string
  gw :: string

record requested_table =
  rq_subnets :: "string list"
  rq_routes :: "requested_route list"

datatype error = KeyError | ValueError | IndexError | NameError

datatype state_flag = Present | Absent

type_synonym mapper = "string \<rightharpoonup> subnet"

text \<open>Python's truth value of an attribute that is \<open>None\<close> or a string: \<open>None\<close> and
  the empty string are false.\<close>

fun truthy :: "string option \<Rightarrow> bool" where
  "truthy None = False"
| "truthy (Some s) = (s \<noteq> [])"

text \<open>\<open>subnet_mapper[key]\<close>: a key that is \<open>None\<close> or not in the dictionary raises
  \<open>KeyError\<close>.\<close>

fun mapper_get :: "mapper \<Rightarrow> string option \<Rightarrow> error + subnet" where
  "mapper_get sm None = Inl KeyError"
| "mapper_get sm (Some k) = (case sm k of None \<Rightarrow> Inl KeyError | Some s \<Rightarrow> Inr s)"

text \<open>The dictionary built in \<open>main\<close>: first keyed by subnet id, then merged with the one
  keyed by address block. In a Python \<open>dict\<close> built from pairs the last pair of a key
  wins, and in the merge the address-block entries win.\<close>

definition subnet_mapper :: "subnet list \<Rightarrow> mapper" where
  "subnet_mapper sns =
     map_of (rev (map (\<lambda>s. (sn_id s, s)) sns)) ++ map_of (rev (map (\<lambda>s. (cidr_block s, s)) sns))"

section \<open>Matching\<close>

text \<open>\<open>find_matching_route\<close>: the first existing route that passes the three guards.\<close>

fun find_matching_route ::
  "route list \<Rightarrow> requested_route \<Rightarrow> mapper \<Rightarrow> gateway \<Rightarrow> route option" where
  "find_matching_route [] requested_route sm g = None"
| "find_matching_route (r # rs) requested_route sm g =
     (if truthy (gateway_id r) \<and>
         (gw requested_route \<noteq> ''igw'' \<or> gateway_id r \<noteq> Some (igw_id g))
      then find_matching_route rs requested_route sm g
      else if truthy (instance_id r) \<and> instance_id r \<noteq> Some (gw requested_route)
      then find_matching_route rs requested_route sm g
      else if truthy (destination_cidr_block r) \<and>
              destination_cidr_block r \<noteq> Some (dest requested_route)
      then find_matching_route rs requested_route sm g
      else Some r)"

text \<open>\<open>find_matching_association\<close>: the lookup of the live association's subnet may raise.\<close>

fun find_matching_association ::
  "association list \<Rightarrow> string \<Rightarrow> mapper \<Rightarrow> error + association option" where
  "find_matching_association [] requested_subnet sm = Inr None"
| "find_matching_association (a # as) requested_subnet sm =
     (case mapper_get sm (subnet_id a) of
        Inl e \<Rightarrow> Inl e
      | Inr s \<Rightarrow>
          if requested_subnet = cidr_block s then Inr (Some a)
          else find_matching_association as requested_subnet sm)"

text \<open>The two inner loops of \<open>find_matching_table\<close>, each leaving \<open>matched\<close> false at the
  first requested entry without a partner.\<close>

fun routes_matched ::
  "route list \<Rightarrow> requested_route list \<Rightarrow> mapper \<Rightarrow> gateway \<Rightarrow> bool" where
  "routes_matched rs [] sm g = True"
| "routes_matched rs (q # qs) sm g =
     (case find_matching_route rs q sm g of
        None \<Rightarrow> False
      | Some _ \<Rightarrow> routes_matched rs qs sm g)"

fun subnets_matched ::
  "association list \<Rightarrow> string list \<Rightarrow> mapper \<Rightarrow> error + bool" where
  "subnets_matched as [] sm = Inr True"
| "subnets_matched as (c # cs) sm =
     (case find_matching_association as c sm of
        Inl e \<Rightarrow> Inl e
      | Inr None \<Rightarrow> Inr False
      | Inr (Some _) \<Rightarrow> subnets_matched as cs sm)"

definition non_local :: "route list \<Rightarrow> route list" where
  "non_local rs = filter (\<lambda>r. gateway_id r \<noteq> Some ''local'') rs"

fun find_matching_table ::
  "route_table list \<Rightarrow> requested_table \<Rightarrow> mapper \<Rightarrow> gateway \<Rightarrow> error + route_table option" where
  "find_matching_table [] requested_table sm g = Inr None"
| "find_matching_table (t # ts) requested_table sm g =
     (if length (rq_routes requested_table) \<noteq> length (non_local (routes t))
      then find_matching_table ts requested_table sm g
      else if \<not> routes_matched (non_local (routes t)) (rq_routes requested_table) sm g
      then find_matching_table ts requested_table sm g
      else if length (rq_subnets requested_table) \<noteq> length (associations t)
      then find_matching_table ts requested_table sm g
      else
        (case subnets_matched (associations t) (rq_subnets requested_table) sm of
           Inl e \<Rightarrow> Inl e
         | Inr False \<Rightarrow> find_matching_table ts requested_table sm g
         | Inr True \<Rightarrow> Inr (Some t)))"

section \<open>The planner loop of \<open>main\<close>\<close>

text \<open>
  The loop over \<open>requested_tables\<close> with its three lists. The scan always runs over
  \<open>existing_tables\<close>; only \<open>old_tables\<close> shrinks. \<open>gateways[0]\<close> is evaluated for each
  call and raises \<open>IndexError\<close> on an empty list; \<open>old_tables.remove\<close> raises
  \<open>ValueError\<close> when the table is no longer in the list. A table returned by the scan is
  a boto object and so always true in \<open>if matching_table\<close>. boto's tables compare by
  object identity, the records here by their fields, which is the same thing as long as
  the provider's table identifiers are distinct.
\<close>

type_synonym plan = "route_table list \<times> route_table list \<times> requested_table list"

fun plan_loop ::
  "route_table list \<Rightarrow> requested_table list \<Rightarrow> mapper \<Rightarrow> gateway list \<Rightarrow> plan \<Rightarrow> error + plan" where
  "plan_loop existing_tables [] sm gateways st = Inr st"
| "plan_loop existing_tables (rq # rqs) sm gateways (matched_tables, old_tables, new_tables) =
     (case gateways of
        [] \<Rightarrow> Inl IndexError
      | g # _ \<Rightarrow>
          (case find_matching_table existing_tables rq sm g of
             Inl e \<Rightarrow> Inl e
           | Inr (Some t) \<Rightarrow>
               if t \<in> set old_tables
               then plan_loop existing_tables rqs sm gateways
                      (matched_tables @ [t], remove1 t old_tables, new_tables)
               else Inl ValueError
           | Inr None \<Rightarrow>
               plan_loop existing_tables rqs sm gateways
                 (matched_tables, old_tables, new_tables @ [rq])))"

definition plan_tables ::
  "route_table list \<Rightarrow> requested_table list \<Rightarrow> mapper \<Rightarrow> gateway list \<Rightarrow> error + plan" where
  "plan_tables existing_tables requested_tables sm gateways =
     plan_loop existing_tables requested_tables sm gateways ([], existing_tables, [])"

section \<open>The provider\<close>

text \<open>
  The remote calls belong to boto and the provider, not to the module. The provider is a
  state: the route tables of the one network, a counter for fresh identifiers, and the
  log of the mutating calls it has received, in order.
\<close>

datatype call =
    DisassociateRouteTable string
  | DeleteRouteTable string
  | CreateRouteTable string
  | CreateRoute string string "string option" "string option"
  | AssociateRouteTable string string

record provider =
  live_tables :: "route_table list"
  created :: nat
  calls :: "call list"

definition fresh_id :: "string \<Rightarrow> nat \<Rightarrow> string" where
  "fresh_id prefix n = prefix @ replicate (Suc n) (CHR ''i'')"

text \<open>Modelled from the spec: route-table listing by network (section 6); the snapshot of
  all tables of the network, the main table included.\<close>

definition get_all_route_tables :: "provider \<Rightarrow> route_table list" where
  "get_all_route_tables p = live_tables p"

text \<open>Modelled from the spec: the disassociate call (section 6); the association of that
  identifier is gone afterwards.\<close>

definition disassociate_route_table :: "provider \<Rightarrow> string \<Rightarrow> provider" where
  "disassociate_route_table p aid =
     p\<lparr>live_tables :=
          map (\<lambda>t. t\<lparr>associations := filter (\<lambda>a. association_id a \<noteq> aid) (associations t)\<rparr>)
            (live_tables p),
        calls := calls p @ [DisassociateRouteTable aid]\<rparr>"

text \<open>Modelled from the spec: the delete-table call (section 6); the table of that
  identifier is gone afterwards.\<close>

definition delete_route_table :: "provider \<Rightarrow> string \<Rightarrow> provider" where
  "delete_route_table p tid =
     p\<lparr>live_tables := filter (\<lambda>t. table_id t \<noteq> tid) (live_tables p),
        calls := calls p @ [DeleteRouteTable tid]\<rparr>"

text \<open>Modelled from the spec: the create-table call (sections 3 and 4.6); the new table has
  a fresh identifier, the provider-injected local route and no association.\<close>

definition create_route_table :: "provider \<Rightarrow> vpc \<Rightarrow> provider \<times> route_table" where
  "create_route_table p v =
     (let new_table =
            \<lparr>table_id = fresh_id ''rtb-'' (created p),
             routes = [\<lparr>destination_cidr_block = Some (vpc_cidr v),
                        gateway_id = Some ''local'', instance_id = None\<rparr>],
             associations = []\<rparr>
      in (p\<lparr>live_tables := live_tables p @ [new_table],
            created := Suc (created p),
            calls := calls p @ [CreateRouteTable (vpc_ident v)]\<rparr>,
          new_table))"

text \<open>Modelled from the spec: the create-route call (sections 3 and 4.6); the table gains a
  route with the destination and the gateway or target-instance identifier passed.\<close>

definition create_route ::
  "provider \<Rightarrow> string \<Rightarrow> string \<Rightarrow> string option \<Rightarrow> string option \<Rightarrow> provider" where
  "create_route p tid d gid iid =
     p\<lparr>live_tables :=
          map (\<lambda>t. if table_id t = tid
                   then t\<lparr>routes := routes t @
                           [\<lparr>destination_cidr_block = Some d, gateway_id = gid, instance_id = iid\<rparr>]\<rparr>
                   else t)
            (live_tables p),
        calls := calls p @ [CreateRoute tid d gid iid]\<rparr>"

text \<open>Modelled from the spec: the associate-subnet call (sections 3 and 4.6); the table gains
  a non-main association with a fresh identifier for that subnet.\<close>

definition associate_route_table :: "provider \<Rightarrow> string \<Rightarrow> string \<Rightarrow> provider" where
  "associate_route_table p tid sid =
     p\<lparr>live_tables :=
          map (\<lambda>t. if table_id t = tid
                   then t\<lparr>associations := associations t @
                           [\<lparr>association_id = fresh_id ''rtbassoc-'' (created p),
                             subnet_id = Some sid, main = False\<rparr>]\<rparr>
                   else t)
            (live_tables p),
        created := Suc (created p),
        calls := calls p @ [AssociateRouteTable tid sid]\<rparr>"

section \<open>The executor: \<open>delete_tables\<close> and \<open>create_tables\<close>\<close>

text \<open>The inner loop of \<open>delete_tables\<close> over one table's associations, with the flag
  \<open>is_main\<close> it computes.\<close>

fun disassociate_loop :: "provider \<Rightarrow> association list \<Rightarrow> bool \<Rightarrow> provider \<times> bool" where
  "disassociate_loop p [] is_main = (p, is_main)"
| "disassociate_loop p (a # as) is_main =
     (if \<not> main a
      then disassociate_loop (disassociate_route_table p (association_id a)) as is_main
      else disassociate_loop p as True)"

fun delete_tables :: "provider \<Rightarrow> route_table list \<Rightarrow> provider" where
  "delete_tables p [] = p"
| "delete_tables p (t # ts) =
     (case disassociate_loop p (associations t) False of
        (p', is_main) \<Rightarrow>
          if \<not> is_main then delete_tables (delete_route_table p' (table_id t)) ts
          else delete_tables p' ts)"

text \<open>The two inner loops of \<open>create_tables\<close>. The subnet lookup raises \<open>KeyError\<close> for an
  address block that is not in the dictionary; the calls made before stay made, so the
  provider state is returned beside the error.\<close>

fun create_routes :: "provider \<Rightarrow> string \<Rightarrow> string \<Rightarrow> requested_route list \<Rightarrow> provider" where
  "create_routes p tid gateway_ident [] = p"
| "create_routes p tid gateway_ident (r # rs) =
     (if gw r = ''igw''
      then create_routes (create_route p tid (dest r) (Some gateway_ident) None) tid gateway_ident rs
      else create_routes (create_route p tid (dest r) None (Some (gw r))) tid gateway_ident rs)"

fun associate_subnets ::
  "provider \<Rightarrow> string \<Rightarrow> string list \<Rightarrow> mapper \<Rightarrow> provider \<times> (error + unit)" where
  "associate_subnets p tid [] sm = (p, Inr ())"
| "associate_subnets p tid (c # cs) sm =
     (case mapper_get sm (Some c) of
        Inl e \<Rightarrow> (p, Inl e)
      | Inr s \<Rightarrow> associate_subnets (associate_route_table p tid (sn_id s)) tid cs sm)"

fun create_tables_loop ::
  "provider \<Rightarrow> vpc \<Rightarrow> string \<Rightarrow> requested_table list \<Rightarrow> mapper \<Rightarrow> route_table list \<Rightarrow>
   provider \<times> (error + route_table list)" where
  "create_tables_loop p v gateway_ident [] sm new_tables = (p, Inr new_tables)"
| "create_tables_loop p v gateway_ident (t # ts) sm new_tables =
     (case create_route_table p v of
        (p1, new_table) \<Rightarrow>
          (case associate_subnets
                  (create_routes p1 (table_id new_table) gateway_ident (rq_routes t))
                  (table_id new_table) (rq_subnets t) sm of
             (p2, Inl e) \<Rightarrow> (p2, Inl e)
           | (p2, Inr _) \<Rightarrow> create_tables_loop p2 v gateway_ident ts sm (new_tables @ [new_table])))"

definition create_tables ::
  "provider \<Rightarrow> vpc \<Rightarrow> string \<Rightarrow> requested_table list \<Rightarrow> mapper \<Rightarrow>
   provider \<times> (error + route_table list)" where
  "create_tables p v gateway_ident tables sm = create_tables_loop p v gateway_ident tables sm []"

section \<open>\<open>main\<close> from the gateway lookup on\<close>

text \<open>\<open>format_response\<close>: per table its identifier, per route the triple (cidr,
  gateway_id, instance_id), per association the pair (subnet_id, is_main).\<close>

type_synonym formatted_table =
  "string \<times> (string option \<times> string option \<times> string option) list \<times> (string option \<times> bool) list"

definition format_response :: "route_table list \<Rightarrow> formatted_table list" where
  "format_response tables =
     map (\<lambda>t. (table_id t,
               map (\<lambda>r. (destination_cidr_block r, gateway_id r, instance_id r)) (routes t),
               map (\<lambda>a. (subnet_id a, main a)) (associations t)))
       tables"

record response =
  changed :: bool
  route_tables :: "formatted_table list"

text \<open>
  \<open>main\<close>, from the check of the gateway list to \<open>exit_json\<close>. The network, its gateways
  and its subnets are the results of the lookups before. The parameter \<open>state\<close> is read
  by \<open>main\<close> and not used after. With more than one gateway the message of \<open>fail_json\<close>
  is built from the undefined name \<open>vpc\<close>, which raises \<open>NameError\<close>. The provider state
  is returned in every case: an exception leaves the calls already made in place.
\<close>

definition main_core ::
  "state_flag \<Rightarrow> requested_table list \<Rightarrow> vpc \<Rightarrow> gateway list \<Rightarrow> subnet list \<Rightarrow> provider \<Rightarrow>
   provider \<times> (error + response)" where
  "main_core state requested_tables v gateways sns p =
     (if length gateways > 1 then (p, Inl NameError)
      else
        let existing_tables =
              filter (\<lambda>t. length (filter main (associations t)) = 0) (get_all_route_tables p);
            sm = subnet_mapper sns
        in
          (case plan_tables existing_tables requested_tables sm gateways of
             Inl e \<Rightarrow> (p, Inl e)
           | Inr (matched_tables, old_tables, new_tables) \<Rightarrow>
               let chg = (length old_tables > 0 \<or> length new_tables > 0);
                   p1 = delete_tables p old_tables
               in
                 (case gateways of
                    [] \<Rightarrow> (p1, Inl IndexError)
                  | g # _ \<Rightarrow>
                      (case create_tables p1 v (igw_id g) new_tables sm of
                         (p2, Inl e) \<Rightarrow> (p2, Inl e)
                       | (p2, Inr _) \<Rightarrow>
                           (p2, Inr \<lparr>changed = chg,
                                     route_tables = format_response (get_all_route_tables p2)\<rparr>)))))"

text \<open>The calls that act on a table or an association that already exists.\<close>

fun mutates_existing :: "call \<Rightarrow> bool" where
  "mutates_existing (DisassociateRouteTable _) = True"
| "mutates_existing (DeleteRouteTable _) = True"
| "mutates_existing _ = False"

section \<open>An example network\<close>

text \<open>One network with its main table, one subnet and one internet gateway; a live
  table routing through the gateway; and two requested tables.\<close>

definition ex_vpc :: vpc where
  "ex_vpc = \<lparr>vpc_ident = ''vpc-1'', vpc_cidr = ''10.0.0.0/16''\<rparr>"

definition ex_gateway :: gateway where
  "ex_gateway = \<lparr>igw_id = ''igw-1''\<rparr>"

definition ex_subnet :: subnet where
  "ex_subnet = \<lparr>sn_id = ''subnet-1'', cidr_block = ''10.0.1.0/24''\<rparr>"

definition ex_local_route :: route where
  "ex_local_route =
     \<lparr>destination_cidr_block = Some ''10.0.0.0/16'', gateway_id = Some ''local'',
      instance_id = None\<rparr>"

definition ex_igw_route :: route where
  "ex_igw_route =
     \<lparr>destination_cidr_block = Some ''0.0.0.0/0'', gateway_id = Some ''igw-1'',
      instance_id = None\<rparr>"

definition ex_bare_route :: route where
  "ex_bare_route =
     \<lparr>destination_cidr_block = Some ''0.0.0.0/0'', gateway_id = None, instance_id = None\<rparr>"

definition ex_main_table :: route_table where
  "ex_main_table =
     \<lparr>table_id = ''rtb-0'', routes = [ex_local_route],
      associations = [\<lparr>association_id = ''rtbassoc-0'', subnet_id = None, main = True\<rparr>]\<rparr>"

definition ex_live_table :: route_table where
  "ex_live_table =
     \<lparr>table_id = ''rtb-9'', routes = [ex_local_route, ex_igw_route],
      associations = [\<lparr>association_id = ''rtbassoc-9'', subnet_id = Some ''subnet-1'',
                       main = False\<rparr>]\<rparr>"

definition ex_plain_table :: route_table where
  "ex_plain_table =
     \<lparr>table_id = ''rtb-8'', routes = [ex_local_route, ex_igw_route], associations = []\<rparr>"

definition ex_requested_route :: requested_route where
  "ex_requested_route = \<lparr>dest = ''0.0.0.0/0'', gw = ''igw''\<rparr>"

definition ex_instance_route :: requested_route where
  "ex_instance_route = \<lparr>dest = ''0.0.0.0/0'', gw = ''i-7''\<rparr>"

definition ex_requested :: requested_table where
  "ex_requested = \<lparr>rq_subnets = [''10.0.1.0/24''], rq_routes = [ex_requested_route]\<rparr>"

definition ex_plain_requested :: requested_table where
  "ex_plain_requested = \<lparr>rq_subnets = [], rq_routes = [ex_requested_route]\<rparr>"

definition ex_absent_requested :: requested_table where
  "ex_absent_requested = \<lparr>rq_subnets = [''10.0.2.0/24''], rq_routes = [ex_requested_route]\<rparr>"

definition ex_provider :: provider where
  "ex_provider = \<lparr>live_tables = [ex_main_table], created = 0, calls = []\<rparr>"

definition ex_live_instance_route :: route where
  "ex_live_instance_route =
     \<lparr>destination_cidr_block = Some ''0.0.0.0/0'', gateway_id = None,
      instance_id = Some ''i-7''\<rparr>"

definition ex_other_table :: route_table where
  "ex_other_table =
     \<lparr>table_id = ''rtb-7'', routes = [ex_local_route, ex_igw_route], associations = []\<rparr>"

definition ex_twice :: "requested_table list" where
  "ex_twice = [ex_plain_requested, ex_plain_requested]"

definition ex_mixed_requested :: requested_table where
  "ex_mixed_requested =
     \<lparr>rq_subnets = [''10.0.1.0/24''], rq_routes = [ex_requested_route, ex_instance_route]\<rparr>"

definition ex_after_first :: provider where
  "ex_after_first =
     \<lparr>live_tables =
        [ex_main_table,
         \<lparr>table_id = ''rtb-i'', routes = [ex_local_route, ex_igw_route], associations = []\<rparr>,
         \<lparr>table_id = ''rtb-ii'', routes = [ex_local_route, ex_igw_route], associations = []\<rparr>],
      created = 2,
      calls =
        [CreateRouteTable ''vpc-1'', CreateRoute ''rtb-i'' ''0.0.0.0/0'' (Some ''igw-1'') None,
         CreateRouteTable ''vpc-1'', CreateRoute ''rtb-ii'' ''0.0.0.0/0'' (Some ''igw-1'') None]\<rparr>"

definition ex_live_provider :: provider where
  "ex_live_provider = \<lparr>live_tables = [ex_main_table, ex_live_table], created = 0, calls = []\<rparr>"

lemmas ex_defs =
  ex_vpc_def ex_gateway_def ex_subnet_def ex_local_route_def ex_igw_route_def
  ex_bare_route_def ex_main_table_def ex_live_table_def ex_plain_table_def
  ex_requested_route_def ex_instance_route_def ex_requested_def ex_plain_requested_def
  ex_absent_requested_def ex_provider_def ex_live_instance_route_def ex_other_table_def
  ex_twice_def ex_live_provider_def ex_mixed_requested_def ex_after_first_def

lemmas run_defs =
  main_core_def plan_tables_def subnet_mapper_def non_local_def get_all_route_tables_def
  create_tables_def create_route_table_def create_route_def associate_route_table_def
  delete_route_table_def disassociate_route_table_def format_response_def fresh_id_def Let_def

section \<open>Only \<open>KeyError\<close> leaves the matcher\<close>

lemma mapper_get_KeyError: "mapper_get sm k = Inl e \<Longrightarrow> e = KeyError"
  by (cases k) (auto split: option.splits)

lemma find_matching_association_KeyError:
  "find_matching_association as c sm = Inl e \<Longrightarrow> e = KeyError"
  by (induction as) (auto split: sum.splits if_splits dest: mapper_get_KeyError)

lemma subnets_matched_KeyError: "subnets_matched as cs sm = Inl e \<Longrightarrow> e = KeyError"
  by (induction cs) (auto split: sum.splits option.splits dest: find_matching_association_KeyError)

lemma find_matching_table_KeyError:
  "find_matching_table ts rq sm g = Inl e \<Longrightarrow> e = KeyError"
  by (induction ts) (auto split: sum.splits if_splits bool.splits dest: subnets_matched_KeyError)

lemma find_matching_table_mem:
  "find_matching_table ts rq sm g = Inr (Some t) \<Longrightarrow> t \<in> set ts"
  by (induction ts) (auto split: if_splits sum.splits bool.splits)

section \<open>The route equivalence check\<close>

text \<open>
  Claim C3. A live route returned by \<open>find_matching_route\<close> is one of the existing
  routes and passed the guards: if its gateway identifier is set, the requested gateway
  is the keyword \<open>igw\<close> and the identifier is the resolved gateway's; otherwise, if its
  target-instance identifier is set, that identifier is the requested gateway literal;
  and if its destination block is set, it is the requested destination.
\<close>

theorem find_matching_route_guards:
  assumes "find_matching_route rs q sm g = Some r"
  shows "r \<in> set rs
       \<and> (truthy (gateway_id r) \<longrightarrow> gw q = ''igw'' \<and> gateway_id r = Some (igw_id g))
       \<and> (\<not> truthy (gateway_id r) \<and> truthy (instance_id r) \<longrightarrow> instance_id r = Some (gw q))
       \<and> (truthy (destination_cidr_block r) \<longrightarrow> destination_cidr_block r = Some (dest q))"
  using assms
proof (induction rs)
  case Nil
  then show ?case by simp
next
  case (Cons x xs)
  show ?case
  proof (cases "find_matching_route (x # xs) q sm g = find_matching_route xs q sm g")
    case True
    with Cons show ?thesis by auto
  next
    case False
    then have "find_matching_route (x # xs) q sm g = Some x"
      by (simp split: if_splits)
    with Cons.prems have rx: "r = x" by simp
    from False show ?thesis unfolding rx
      by (auto split: if_splits)
  qed
qed

theorem find_matching_route_guards_witness:
  "find_matching_route [ex_local_route, ex_igw_route] ex_requested_route Map.empty ex_gateway
     = Some ex_igw_route
   \<and> truthy (gateway_id ex_igw_route)
   \<and> gw ex_requested_route = ''igw'' \<and> gateway_id ex_igw_route = Some (igw_id ex_gateway)
   \<and> destination_cidr_block ex_igw_route = Some (dest ex_requested_route)
   \<and> find_matching_route [ex_igw_route, ex_live_instance_route] ex_instance_route Map.empty
        ex_gateway = Some ex_live_instance_route
   \<and> \<not> truthy (gateway_id ex_live_instance_route) \<and> truthy (instance_id ex_live_instance_route)
   \<and> instance_id ex_live_instance_route = Some (gw ex_instance_route)"
proof -
  have h1: "find_matching_route [ex_local_route, ex_igw_route] ex_requested_route Map.empty
              ex_gateway = Some ex_igw_route"
    by (simp add: ex_defs)
  have h2: "find_matching_route [ex_igw_route, ex_live_instance_route] ex_instance_route
              Map.empty ex_gateway = Some ex_live_instance_route"
    by (simp add: ex_defs)
  have t1: "truthy (gateway_id ex_igw_route)"
    and t2: "\<not> truthy (gateway_id ex_live_instance_route)"
      "truthy (instance_id ex_live_instance_route)"
      "truthy (destination_cidr_block ex_igw_route)"
    by (simp_all add: ex_defs)
  from find_matching_route_guards [OF h1] find_matching_route_guards [OF h2] h1 h2 t1 t2
  show ?thesis by blast
qed

text \<open>
  Claim C9. A live route with neither a gateway identifier nor a target-instance
  identifier set, and with its destination block unset or equal to the requested
  destination, passes every guard whatever the requested gateway is: at the head of the
  list it is the route returned, and anywhere in the list it makes the search succeed.
\<close>

theorem unset_route_satisfies_any:
  assumes "\<not> truthy (gateway_id r)" and "\<not> truthy (instance_id r)"
    and "\<not> truthy (destination_cidr_block r) \<or> destination_cidr_block r = Some (dest q)"
  shows "find_matching_route (r # post) q sm g = Some r
       \<and> find_matching_route (pre @ r # post) q sm g \<noteq> None"
proof
  show hd: "find_matching_route (r # post) q sm g = Some r"
    using assms by auto
  show "find_matching_route (pre @ r # post) q sm g \<noteq> None"
  proof (induction pre)
    case Nil
    then show ?case using hd by simp
  next
    case (Cons x xs)
    then show ?case by simp
  qed
qed

theorem unset_route_satisfies_any_witness:
  "\<not> truthy (gateway_id ex_bare_route) \<and> \<not> truthy (instance_id ex_bare_route)
   \<and> destination_cidr_block ex_bare_route = Some (dest ex_instance_route)
   \<and> find_matching_route [ex_bare_route] ex_instance_route Map.empty ex_gateway
       = Some ex_bare_route
   \<and> find_matching_route [ex_igw_route, ex_bare_route] ex_instance_route Map.empty ex_gateway
       \<noteq> None"
proof -
  have h: "\<not> truthy (gateway_id ex_bare_route)" "\<not> truthy (instance_id ex_bare_route)"
    "destination_cidr_block ex_bare_route = Some (dest ex_instance_route)"
    by (simp_all add: ex_defs)
  from h(3) have h3: "\<not> truthy (destination_cidr_block ex_bare_route)
      \<or> destination_cidr_block ex_bare_route = Some (dest ex_instance_route)" ..
  from unset_route_satisfies_any [OF h(1,2) h3, of "[]" Map.empty ex_gateway "[ex_igw_route]"] h
  show ?thesis by simp
qed

section \<open>The table matcher\<close>

text \<open>
  Claim C2. A live table returned by \<open>find_matching_table\<close> is one of the existing
  tables, has as many routes other than the local one as the requested table has routes,
  and has as many associations as the requested table has subnets.
\<close>

theorem find_matching_table_counts:
  assumes "find_matching_table ts rq sm g = Inr (Some t)"
  shows "t \<in> set ts
       \<and> length (rq_routes rq) = length (filter (\<lambda>r. gateway_id r \<noteq> Some ''local'') (routes t))
       \<and> length (rq_subnets rq) = length (associations t)"
  using assms
  by (induction ts) (auto simp: non_local_def split: if_splits sum.splits bool.splits)

theorem find_matching_table_counts_witness:
  "find_matching_table [ex_plain_table, ex_live_table] ex_requested (subnet_mapper [ex_subnet])
     ex_gateway = Inr (Some ex_live_table)
   \<and> length (rq_routes ex_requested)
       = length (filter (\<lambda>r. gateway_id r \<noteq> Some ''local'') (routes ex_live_table))
   \<and> length (rq_subnets ex_requested) = length (associations ex_live_table)"
proof -
  have h: "find_matching_table [ex_plain_table, ex_live_table] ex_requested
             (subnet_mapper [ex_subnet]) ex_gateway = Inr (Some ex_live_table)"
    by (simp add: ex_defs run_defs)
  from find_matching_table_counts [OF h] h show ?thesis by simp
qed

section \<open>The planner\<close>

lemma plan_loop_errors:
  "plan_loop ex rqs sm (g # gs) st = Inl e \<Longrightarrow> e = KeyError \<or> e = ValueError"
proof (induction rqs arbitrary: st)
  case Nil
  then show ?case by simp
next
  case (Cons rq rqs)
  obtain m old new where st: "st = (m, old, new)" by (cases st)
  from Cons.prems show ?case unfolding st
    by (auto split: sum.splits option.splits if_splits
             dest: find_matching_table_KeyError Cons.IH)
qed

text \<open>The lists only move one way: \<open>old_tables\<close> loses tables, \<open>matched_tables\<close> gains
  existing tables, \<open>new_tables\<close> gains the requested tables without a match.\<close>

lemma plan_loop_subsets:
  "plan_loop ex rqs sm gws (m, old, new) = Inr (m', old', new') \<Longrightarrow>
   set old' \<subseteq> set old \<and> set m' \<subseteq> set m \<union> set ex"
proof (induction rqs arbitrary: m old new)
  case Nil
  then show ?case by auto
next
  case (Cons x xs)
  from Cons.prems obtain g gs where gws: "gws = g # gs" by (cases gws) auto
  show ?case
  proof (cases "find_matching_table ex x sm g")
    case (Inl e)
    with Cons.prems gws show ?thesis by simp
  next
    case (Inr r)
    show ?thesis
    proof (cases r)
      case None
      with Inr Cons.prems gws Cons.IH [of m old "new @ [x]"] show ?thesis by simp
    next
      case (Some t)
      have "t \<in> set ex" using Inr Some by (simp add: find_matching_table_mem)
      moreover from Some Inr Cons.prems gws
      have "plan_loop ex xs sm gws (m @ [t], remove1 t old, new) = Inr (m', old', new')"
        by (simp split: if_splits)
      from Cons.IH [OF this]
      have "set old' \<subseteq> set (remove1 t old)" "set m' \<subseteq> set (m @ [t]) \<union> set ex"
        by simp_all
      ultimately show ?thesis using set_remove1_subset [of t old] by auto
    qed
  qed
qed

lemma plan_loop_new_tables:
  "plan_loop ex rqs sm (g # gs) (m, old, new) = Inr (m', old', new') \<Longrightarrow>
   new' = new @ filter (\<lambda>rq. find_matching_table ex rq sm g = Inr None) rqs"
proof (induction rqs arbitrary: m old new)
  case Nil
  then show ?case by simp
next
  case (Cons x xs)
  show ?case
  proof (cases "find_matching_table ex x sm g")
    case (Inl e)
    with Cons.prems show ?thesis by simp
  next
    case (Inr r)
    show ?thesis
    proof (cases r)
      case None
      with Inr Cons.prems Cons.IH [of m old "new @ [x]"] show ?thesis by simp
    next
      case (Some t)
      with Inr Cons.prems Cons.IH [of "m @ [t]" "remove1 t old" new] show ?thesis
        by (simp split: if_splits)
    qed
  qed
qed

text \<open>Once a table has left \<open>old_tables\<close>, a later requested table that the scan pairs
  with it stops the loop.\<close>

lemma plan_loop_gone:
  assumes "rq \<in> set rqs" and "find_matching_table ex rq sm g = Inr (Some t)"
    and "t \<notin> set old"
  shows "\<exists>e. plan_loop ex rqs sm (g # gs) (m, old, new) = Inl e"
  using assms
proof (induction rqs arbitrary: m old new)
  case Nil
  then show ?case by simp
next
  case (Cons x xs)
  show ?case
  proof (cases "find_matching_table ex x sm g")
    case (Inl e)
    then show ?thesis by simp
  next
    case (Inr r)
    show ?thesis
    proof (cases r)
      case None
      with Inr Cons.prems have "rq \<in> set xs" by auto
      from Cons.IH [OF this Cons.prems(2,3)] Inr None show ?thesis by simp
    next
      case (Some t')
      show ?thesis
      proof (cases "t' \<in> set old")
        case False
        with Inr Some show ?thesis by simp
      next
        case True
        with Cons.prems Inr Some have "rq \<in> set xs" by auto
        moreover have "t \<notin> set (remove1 t' old)"
          using Cons.prems(3) set_remove1_subset [of t' old] by blast
        ultimately show ?thesis
          using Cons.IH [OF _ Cons.prems(2)] Inr Some True by simp
      qed
    qed
  qed
qed

lemma plan_loop_twice:
  assumes "distinct old"
    and "find_matching_table ex rq1 sm g = Inr (Some t)"
    and "rq2 \<in> set rest" and "find_matching_table ex rq2 sm g = Inr (Some t)"
  shows "\<exists>e. plan_loop ex (pre @ rq1 # rest) sm (g # gs) (m, old, new) = Inl e"
  using assms(1)
proof (induction pre arbitrary: m old new)
  case Nil
  show ?case
  proof (cases "t \<in> set old")
    case False
    with assms(2) show ?thesis by simp
  next
    case True
    from Nil have "t \<notin> set (remove1 t old)" by simp
    from plan_loop_gone [OF assms(3,4) this] True assms(2) show ?thesis by simp
  qed
next
  case (Cons x xs)
  show ?case
  proof (cases "find_matching_table ex x sm g")
    case (Inl e)
    then show ?thesis by simp
  next
    case (Inr r)
    show ?thesis
    proof (cases r)
      case None
      with Inr Cons show ?thesis by simp
    next
      case (Some t')
      from Cons.prems have "distinct (remove1 t' old)" by simp
      from Cons.IH [OF this] Inr Some show ?thesis by simp
    qed
  qed
qed

text \<open>
  Claim C10. The scan of every requested table runs over all of \<open>existing_tables\<close>; a
  matched table leaves \<open>old_tables\<close> only, and the loop goes on with the same
  \<open>existing_tables\<close>. So when two requested tables of the input are both paired with the
  same live table, the loop does not return a plan: it ends in the \<open>ValueError\<close> of the
  second \<open>remove\<close> (or in a \<open>KeyError\<close> that some scan raised before). The existing
  tables are distinct, as tables with distinct identifiers are.
\<close>

theorem same_table_twice_aborts:
  assumes "distinct existing_tables"
    and "find_matching_table existing_tables rq1 sm g = Inr (Some t)"
    and "find_matching_table existing_tables rq2 sm g = Inr (Some t)"
  shows "(plan_tables existing_tables (pre @ rq1 # mid @ rq2 # post) sm (g # gs) = Inl ValueError
          \<or> plan_tables existing_tables (pre @ rq1 # mid @ rq2 # post) sm (g # gs) = Inl KeyError)
       \<and> (t \<in> set old \<longrightarrow>
            plan_loop existing_tables (rq1 # rqs) sm (g # gs) (m, old, new)
              = plan_loop existing_tables rqs sm (g # gs) (m @ [t], remove1 t old, new))"
proof -
  have "rq2 \<in> set (mid @ rq2 # post)" by simp
  from plan_loop_twice [OF assms(1,2) this assms(3)]
  obtain e where e: "plan_tables existing_tables (pre @ rq1 # mid @ rq2 # post) sm (g # gs) = Inl e"
    unfolding plan_tables_def by blast
  then have "e = KeyError \<or> e = ValueError"
    unfolding plan_tables_def by (rule plan_loop_errors)
  with e have "plan_tables existing_tables (pre @ rq1 # mid @ rq2 # post) sm (g # gs) = Inl ValueError
          \<or> plan_tables existing_tables (pre @ rq1 # mid @ rq2 # post) sm (g # gs) = Inl KeyError"
    by auto
  moreover have "plan_loop existing_tables (rq1 # rqs) sm (g # gs) (m, old, new)
              = plan_loop existing_tables rqs sm (g # gs) (m @ [t], remove1 t old, new)"
    if "t \<in> set old"
    using that assms(2) by simp
  ultimately show ?thesis by blast
qed

theorem same_table_twice_aborts_witness:
  "distinct [ex_live_table, ex_plain_table]
   \<and> find_matching_table [ex_live_table, ex_plain_table] ex_plain_requested
        (subnet_mapper [ex_subnet]) ex_gateway = Inr (Some ex_plain_table)
   \<and> plan_tables [ex_live_table, ex_plain_table]
        ([ex_requested] @ ex_plain_requested # [] @ ex_plain_requested # [])
        (subnet_mapper [ex_subnet]) [ex_gateway] = Inl ValueError
   \<and> ex_plain_table \<in> set [ex_plain_table]
   \<and> plan_loop [ex_live_table, ex_plain_table] (ex_plain_requested # [ex_plain_requested])
        (subnet_mapper [ex_subnet]) [ex_gateway] ([ex_live_table], [ex_plain_table], [])
       = plan_loop [ex_live_table, ex_plain_table] [ex_plain_requested]
           (subnet_mapper [ex_subnet]) [ex_gateway]
           ([ex_live_table] @ [ex_plain_table], remove1 ex_plain_table [ex_plain_table], [])"
proof -
  have d: "distinct [ex_live_table, ex_plain_table]"
    by (simp add: ex_defs)
  have h: "find_matching_table [ex_live_table, ex_plain_table] ex_plain_requested
        (subnet_mapper [ex_subnet]) ex_gateway = Inr (Some ex_plain_table)"
    by (simp add: ex_defs run_defs)
  have k: "plan_tables [ex_live_table, ex_plain_table]
        ([ex_requested] @ ex_plain_requested # [] @ ex_plain_requested # [])
        (subnet_mapper [ex_subnet]) [ex_gateway] \<noteq> Inl KeyError"
    by (simp add: ex_defs run_defs)
  have i: "ex_plain_table \<in> set [ex_plain_table]" by simp
  from same_table_twice_aborts [OF d h h, of "[ex_requested]" "[]" "[]" "[]"
      "[ex_plain_table]" "[ex_plain_requested]" "[ex_live_table]" "[]"] d h k i
  show ?thesis by blast
qed

section \<open>A requested subnet that the network does not have\<close>

lemma subnet_mapper_range: "subnet_mapper sns k = Some s \<Longrightarrow> s \<in> set sns"
  unfolding subnet_mapper_def
  by (auto simp: map_add_Some_iff dest!: map_of_SomeD)

lemma subnet_mapper_id: "s \<in> set sns \<Longrightarrow> \<exists>s'. subnet_mapper sns (sn_id s) = Some s'"
proof -
  assume "s \<in> set sns"
  then have "sn_id s \<in> fst ` set (rev (map (\<lambda>s. (sn_id s, s)) sns))"
    by force
  then have "sn_id s \<in> dom (map_of (rev (map (\<lambda>s. (sn_id s, s)) sns)))"
    by (simp only: dom_map_of_conv_image_fst)
  then have "sn_id s \<in> dom (subnet_mapper sns)"
    unfolding subnet_mapper_def by simp
  then show ?thesis by blast
qed

lemma find_matching_association_absent:
  assumes "c \<notin> cidr_block ` set sns"
    and "\<forall>a\<in>set as. \<exists>s\<in>set sns. subnet_id a = Some (sn_id s)"
  shows "find_matching_association as c (subnet_mapper sns) = Inr None"
  using assms(2)
proof (induction as)
  case Nil
  then show ?case by simp
next
  case (Cons a as)
  then obtain s where s: "s \<in> set sns" "subnet_id a = Some (sn_id s)" by auto
  from subnet_mapper_id [OF s(1)] obtain s' where s': "subnet_mapper sns (sn_id s) = Some s'"
    by blast
  from subnet_mapper_range [OF s'] assms(1) have "c \<noteq> cidr_block s'" by blast
  with Cons s s' show ?case by simp
qed

lemma find_matching_association_resolves:
  assumes "\<forall>a\<in>set as. \<exists>s\<in>set sns. subnet_id a = Some (sn_id s)"
  shows "find_matching_association as c (subnet_mapper sns) \<noteq> Inl e"
  using assms
proof (induction as)
  case Nil
  then show ?case by simp
next
  case (Cons a as)
  then obtain s where s: "s \<in> set sns" "subnet_id a = Some (sn_id s)" by auto
  from subnet_mapper_id [OF s(1)] obtain s' where s': "subnet_mapper sns (sn_id s) = Some s'"
    by blast
  with Cons s show ?case by simp
qed

lemma subnets_matched_absent:
  assumes "c \<notin> cidr_block ` set sns"
    and "\<forall>a\<in>set as. \<exists>s\<in>set sns. subnet_id a = Some (sn_id s)"
    and "c \<in> set cs"
  shows "subnets_matched as cs (subnet_mapper sns) = Inr False"
  using assms(3)
proof (induction cs)
  case Nil
  then show ?case by simp
next
  case (Cons x xs)
  show ?case
  proof (cases "find_matching_association as x (subnet_mapper sns)")
    case (Inl e)
    with find_matching_association_resolves [OF assms(2)] show ?thesis by blast
  next
    case (Inr r)
    show ?thesis
    proof (cases r)
      case None
      with Inr show ?thesis by simp
    next
      case (Some a)
      with Inr find_matching_association_absent [OF assms(1,2)] have "x \<noteq> c" by auto
      with Cons have "subnets_matched as xs (subnet_mapper sns) = Inr False" by simp
      with Inr Some show ?thesis by simp
    qed
  qed
qed

lemma find_matching_table_absent:
  assumes "c \<in> set (rq_subnets rq)" and "c \<notin> cidr_block ` set sns"
    and "\<forall>t\<in>set ts. \<forall>a\<in>set (associations t). \<exists>s\<in>set sns. subnet_id a = Some (sn_id s)"
  shows "find_matching_table ts rq (subnet_mapper sns) g = Inr None"
  using assms(3)
proof (induction ts)
  case Nil
  then show ?case by simp
next
  case (Cons t ts)
  then have "\<forall>a\<in>set (associations t). \<exists>s\<in>set sns. subnet_id a = Some (sn_id s)" by simp
  from subnets_matched_absent [OF assms(2) this assms(1)] Cons show ?case by simp
qed

text \<open>What happens to such a table afterwards, in \<open>create_tables\<close>: the lookup of the
  address block raises \<open>KeyError\<close>.\<close>

lemma associate_subnets_absent:
  assumes "c \<in> set cs" and "sm c = None"
  shows "snd (associate_subnets p tid cs sm) = Inl KeyError"
  using assms(1)
proof (induction cs arbitrary: p)
  case Nil
  then show ?case by simp
next
  case (Cons x xs)
  then show ?case using assms(2)
    by (cases "sm x") auto
qed

text \<open>
  Claim C7. A requested table names a subnet address block that no subnet of the network
  has, and every association of the existing tables is to a subnet of the network. Then
  \<open>find_matching_table\<close> returns no table and raises nothing, the planner loop goes on
  with the requested table appended to \<open>new_tables\<close>, and every plan the loop returns
  has the table among those to create.
\<close>

theorem absent_subnet_no_match:
  assumes "c \<in> set (rq_subnets rq)" and "c \<notin> cidr_block ` set sns"
    and "\<forall>t\<in>set existing_tables. \<forall>a\<in>set (associations t).
           \<exists>s\<in>set sns. subnet_id a = Some (sn_id s)"
  shows "find_matching_table existing_tables rq (subnet_mapper sns) g = Inr None
       \<and> plan_loop existing_tables (rq # rqs) (subnet_mapper sns) (g # gs) (m, old, new)
           = plan_loop existing_tables rqs (subnet_mapper sns) (g # gs) (m, old, new @ [rq])
       \<and> (rq \<in> set requested_tables
            \<and> plan_tables existing_tables requested_tables (subnet_mapper sns) (g # gs)
                = Inr (m', old', new')
          \<longrightarrow> rq \<in> set new')"
proof -
  have none: "find_matching_table existing_tables rq (subnet_mapper sns) g = Inr None"
    using assms by (rule find_matching_table_absent)
  then have step: "plan_loop existing_tables (rq # rqs) (subnet_mapper sns) (g # gs) (m, old, new)
           = plan_loop existing_tables rqs (subnet_mapper sns) (g # gs) (m, old, new @ [rq])"
    by simp
  have "rq \<in> set new'"
    if "rq \<in> set requested_tables"
      and "plan_tables existing_tables requested_tables (subnet_mapper sns) (g # gs)
                = Inr (m', old', new')"
    using plan_loop_new_tables [OF that(2) [unfolded plan_tables_def]] that(1) none by simp
  with none step show ?thesis by blast
qed

theorem absent_subnet_no_match_witness:
  "''10.0.2.0/24'' \<in> set (rq_subnets ex_absent_requested)
   \<and> ''10.0.2.0/24'' \<notin> cidr_block ` set [ex_subnet]
   \<and> map subnet_id (associations ex_live_table) = [Some (sn_id ex_subnet)]
   \<and> find_matching_table [ex_live_table] ex_absent_requested (subnet_mapper [ex_subnet])
        ex_gateway = Inr None
   \<and> plan_tables [ex_live_table] [ex_requested, ex_absent_requested] (subnet_mapper [ex_subnet])
        [ex_gateway] = Inr ([ex_live_table], [], [ex_absent_requested])
   \<and> ex_absent_requested \<in> set [ex_absent_requested]"
proof -
  have h1: "''10.0.2.0/24'' \<in> set (rq_subnets ex_absent_requested)"
    and h2: "''10.0.2.0/24'' \<notin> cidr_block ` set [ex_subnet]"
    and h3: "\<forall>t\<in>set [ex_live_table]. \<forall>a\<in>set (associations t).
         \<exists>s\<in>set [ex_subnet]. subnet_id a = Some (sn_id s)"
    by (simp_all add: ex_defs)
  have h4: "ex_absent_requested \<in> set [ex_requested, ex_absent_requested]" by simp
  have h5: "plan_tables [ex_live_table] [ex_requested, ex_absent_requested]
        (subnet_mapper [ex_subnet]) [ex_gateway] = Inr ([ex_live_table], [], [ex_absent_requested])"
    by (simp add: ex_defs run_defs)
  have h6: "map subnet_id (associations ex_live_table) = [Some (sn_id ex_subnet)]"
    by (simp add: ex_defs)
  from absent_subnet_no_match [OF h1 h2 h3, of ex_gateway "[]" "[]" "[]" "[]" "[]"
      "[ex_requested, ex_absent_requested]" "[ex_live_table]" "[]" "[ex_absent_requested]"]
    h1 h2 h4 h5 h6
  show ?thesis by blast
qed

section \<open>The executor's calls\<close>

lemma calls_create_routes:
  "calls (create_routes p tid gid rs) =
   calls p @ map (\<lambda>r. if gw r = ''igw'' then CreateRoute tid (dest r) (Some gid) None
                     else CreateRoute tid (dest r) None (Some (gw r))) rs"
  by (induction rs arbitrary: p) (simp_all add: create_route_def)

lemma associate_subnets_resolved:
  assumes "\<forall>c\<in>set cs. c \<in> dom sm"
  shows "snd (associate_subnets p tid cs sm) = Inr ()
       \<and> calls (fst (associate_subnets p tid cs sm)) =
           calls p @ map (\<lambda>c. AssociateRouteTable tid (sn_id (the (sm c)))) cs"
  using assms
proof (induction cs arbitrary: p)
  case Nil
  then show ?case by simp
next
  case (Cons c cs)
  then obtain s where s: "sm c = Some s" by auto
  from Cons have "\<forall>c\<in>set cs. c \<in> dom sm" by simp
  from Cons.IH [OF this, of "associate_route_table p tid (sn_id s)"] s
  show ?case by (simp add: associate_route_table_def)
qed

lemma create_tables_loop_resolved:
  assumes "\<forall>t\<in>set ts. \<forall>c\<in>set (rq_subnets t). c \<in> dom sm"
  shows "\<exists>nts. snd (create_tables_loop p v gid ts sm acc) = Inr (acc @ nts)
       \<and> length nts = length ts
       \<and> calls (fst (create_tables_loop p v gid ts sm acc)) =
           calls p @ concat (map (\<lambda>(t, nt).
             CreateRouteTable (vpc_ident v)
             # map (\<lambda>r. if gw r = ''igw'' then CreateRoute (table_id nt) (dest r) (Some gid) None
                        else CreateRoute (table_id nt) (dest r) None (Some (gw r))) (rq_routes t)
             @ map (\<lambda>c. AssociateRouteTable (table_id nt) (sn_id (the (sm c)))) (rq_subnets t))
             (zip ts nts))"
  using assms
proof (induction ts arbitrary: p acc)
  case Nil
  then show ?case by simp
next
  case (Cons t ts)
  obtain p1 nt where crt: "create_route_table p v = (p1, nt)" by (cases "create_route_table p v")
  then have c1: "calls p1 = calls p @ [CreateRouteTable (vpc_ident v)]"
    by (auto simp: create_route_table_def Let_def)
  define p2 where "p2 = create_routes p1 (table_id nt) gid (rq_routes t)"
  define p3 where "p3 = fst (associate_subnets p2 (table_id nt) (rq_subnets t) sm)"
  from Cons.prems have res: "\<forall>c\<in>set (rq_subnets t). c \<in> dom sm" by simp
  from associate_subnets_resolved [OF res, of p2 "table_id nt"]
  have a: "associate_subnets p2 (table_id nt) (rq_subnets t) sm = (p3, Inr ())"
    and c3: "calls p3 = calls p2
               @ map (\<lambda>c. AssociateRouteTable (table_id nt) (sn_id (the (sm c)))) (rq_subnets t)"
    unfolding p3_def by (simp_all add: prod_eq_iff)
  have c2: "calls p2 = calls p1
      @ map (\<lambda>r. if gw r = ''igw'' then CreateRoute (table_id nt) (dest r) (Some gid) None
                 else CreateRoute (table_id nt) (dest r) None (Some (gw r))) (rq_routes t)"
    unfolding p2_def by (rule calls_create_routes)
  have step: "create_tables_loop p v gid (t # ts) sm acc
                = create_tables_loop p3 v gid ts sm (acc @ [nt])"
    using crt a by (simp add: p2_def)
  from Cons.prems have "\<forall>t\<in>set ts. \<forall>c\<in>set (rq_subnets t). c \<in> dom sm" by simp
  from Cons.IH [OF this, of p3 "acc @ [nt]"] obtain nts where
    nts: "snd (create_tables_loop p3 v gid ts sm (acc @ [nt])) = Inr ((acc @ [nt]) @ nts)"
      "length nts = length ts"
      "calls (fst (create_tables_loop p3 v gid ts sm (acc @ [nt]))) =
           calls p3 @ concat (map (\<lambda>(t, nt).
             CreateRouteTable (vpc_ident v)
             # map (\<lambda>r. if gw r = ''igw'' then CreateRoute (table_id nt) (dest r) (Some gid) None
                        else CreateRoute (table_id nt) (dest r) None (Some (gw r))) (rq_routes t)
             @ map (\<lambda>c. AssociateRouteTable (table_id nt) (sn_id (the (sm c)))) (rq_subnets t))
             (zip ts nts))"
    by blast
  show ?case
    apply (rule exI [of _ "nt # nts"])
    unfolding step using nts c1 c2 c3 by simp
qed

text \<open>
  Claim C6. When every subnet block of the tables to create is in the dictionary,
  \<open>create_tables\<close> returns one new table per requested table, and the calls it adds to
  the log are, per requested table and in this order: the creation of a table; for each
  declared route a \<open>create_route\<close> on the new table's identifier, with the gateway
  identifier in the gateway position and no instance when the route says \<open>igw\<close>, and
  with the declared literal in the instance position and no gateway otherwise; for each
  declared subnet block an association of the new table with the identifier of the
  subnet the dictionary has for the block.
\<close>

theorem create_tables_calls:
  assumes "\<forall>t\<in>set tables. \<forall>c\<in>set (rq_subnets t). c \<in> dom sm"
  shows "\<exists>new_tables. snd (create_tables p v gateway_ident tables sm) = Inr new_tables
       \<and> length new_tables = length tables
       \<and> calls (fst (create_tables p v gateway_ident tables sm)) =
           calls p @ concat (map (\<lambda>(t, new_table).
             CreateRouteTable (vpc_ident v)
             # map (\<lambda>r. if gw r = ''igw''
                        then CreateRoute (table_id new_table) (dest r) (Some gateway_ident) None
                        else CreateRoute (table_id new_table) (dest r) None (Some (gw r)))
                 (rq_routes t)
             @ map (\<lambda>c. AssociateRouteTable (table_id new_table) (sn_id (the (sm c))))
                 (rq_subnets t))
             (zip tables new_tables))"
  using create_tables_loop_resolved [OF assms, of p v gateway_ident "[]"]
  unfolding create_tables_def by simp

theorem create_tables_calls_witness:
  "rq_subnets ex_mixed_requested = [''10.0.1.0/24'']
   \<and> subnet_mapper [ex_subnet] ''10.0.1.0/24'' = Some ex_subnet
   \<and> calls (fst (create_tables ex_provider ex_vpc (igw_id ex_gateway) [ex_mixed_requested]
                   (subnet_mapper [ex_subnet])))
      = [CreateRouteTable ''vpc-1'',
         CreateRoute ''rtb-i'' ''0.0.0.0/0'' (Some ''igw-1'') None,
         CreateRoute ''rtb-i'' ''0.0.0.0/0'' None (Some ''i-7''),
         AssociateRouteTable ''rtb-i'' ''subnet-1'']"
proof -
  have h: "\<forall>t\<in>set [ex_mixed_requested]. \<forall>c\<in>set (rq_subnets t).
             c \<in> dom (subnet_mapper [ex_subnet])"
    by (simp add: ex_defs run_defs)
  have r: "snd (create_tables ex_provider ex_vpc (igw_id ex_gateway) [ex_mixed_requested]
                  (subnet_mapper [ex_subnet]))
     = Inr [\<lparr>table_id = ''rtb-i'', routes = [ex_local_route], associations = []\<rparr>]"
    by (simp add: ex_defs run_defs)
  from create_tables_calls [OF h, of ex_provider ex_vpc "igw_id ex_gateway"]
  obtain nts where
    n: "snd (create_tables ex_provider ex_vpc (igw_id ex_gateway) [ex_mixed_requested]
               (subnet_mapper [ex_subnet])) = Inr nts"
    and c: "calls (fst (create_tables ex_provider ex_vpc (igw_id ex_gateway) [ex_mixed_requested]
                     (subnet_mapper [ex_subnet]))) =
           calls ex_provider @ concat (map (\<lambda>(t, new_table).
             CreateRouteTable (vpc_ident ex_vpc)
             # map (\<lambda>r. if gw r = ''igw''
                        then CreateRoute (table_id new_table) (dest r) (Some (igw_id ex_gateway)) None
                        else CreateRoute (table_id new_table) (dest r) None (Some (gw r)))
                 (rq_routes t)
             @ map (\<lambda>c. AssociateRouteTable (table_id new_table)
                          (sn_id (the (subnet_mapper [ex_subnet] c))))
                 (rq_subnets t))
             (zip [ex_mixed_requested] nts))"
    by blast
  from n r have "nts = [\<lparr>table_id = ''rtb-i'', routes = [ex_local_route], associations = []\<rparr>]"
    by simp
  with c show ?thesis
    by (simp add: ex_defs subnet_mapper_def)
qed

lemma disassociate_loop_calls:
  "calls (fst (disassociate_loop p as b)) =
     calls p @ map (\<lambda>a. DisassociateRouteTable (association_id a)) (filter (\<lambda>a. \<not> main a) as)
   \<and> snd (disassociate_loop p as b) = (b \<or> (\<exists>a\<in>set as. main a))"
  by (induction as arbitrary: p b) (auto simp: disassociate_route_table_def)

lemma delete_tables_calls:
  "calls (delete_tables p ts) =
     calls p @ concat (map (\<lambda>t.
       map (\<lambda>a. DisassociateRouteTable (association_id a)) (filter (\<lambda>a. \<not> main a) (associations t))
       @ (if \<exists>a\<in>set (associations t). main a then [] else [DeleteRouteTable (table_id t)])) ts)"
proof (induction ts arbitrary: p)
  case Nil
  then show ?case by simp
next
  case (Cons t ts)
  obtain p' b where d: "disassociate_loop p (associations t) False = (p', b)"
    by (cases "disassociate_loop p (associations t) False")
  with disassociate_loop_calls [of p "associations t" False]
  have c: "calls p' = calls p @ map (\<lambda>a. DisassociateRouteTable (association_id a))
                                  (filter (\<lambda>a. \<not> main a) (associations t))"
    and b: "b = (\<exists>a\<in>set (associations t). main a)" by simp_all
  show ?case
  proof (cases b)
    case True
    with d b c Cons.IH [of p'] show ?thesis by simp
  next
    case False
    with d b c Cons.IH [of "delete_route_table p' (table_id t)"] show ?thesis
      by (simp add: delete_route_table_def)
  qed
qed

lemma associate_subnets_calls:
  "\<exists>cs. calls (fst (associate_subnets p tid xs sm)) = calls p @ cs
       \<and> (\<forall>c\<in>set cs. \<not> mutates_existing c)"
proof (induction xs arbitrary: p)
  case Nil
  then show ?case by simp
next
  case (Cons x xs)
  show ?case
  proof (cases "sm x")
    case None
    then show ?thesis by simp
  next
    case (Some s)
    from Cons [of "associate_route_table p tid (sn_id s)"] obtain cs where
      "calls (fst (associate_subnets (associate_route_table p tid (sn_id s)) tid xs sm))
         = calls (associate_route_table p tid (sn_id s)) @ cs" "\<forall>c\<in>set cs. \<not> mutates_existing c"
      by blast
    with Some show ?thesis
      by (auto simp: associate_route_table_def
               intro!: exI [of _ "AssociateRouteTable tid (sn_id s) # cs"])
  qed
qed

lemma create_routes_calls:
  "\<exists>cs. calls (create_routes p tid gid rs) = calls p @ cs \<and> (\<forall>c\<in>set cs. \<not> mutates_existing c)"
  by (rule exI, rule conjI, rule calls_create_routes) auto

lemma create_tables_loop_calls:
  "\<exists>cs. calls (fst (create_tables_loop p v gid ts sm acc)) = calls p @ cs
       \<and> (\<forall>c\<in>set cs. \<not> mutates_existing c)"
proof (induction ts arbitrary: p acc)
  case Nil
  then show ?case by simp
next
  case (Cons t ts)
  obtain p1 nt where crt: "create_route_table p v = (p1, nt)" by (cases "create_route_table p v")
  then have c1: "calls p1 = calls p @ [CreateRouteTable (vpc_ident v)]"
    by (auto simp: create_route_table_def Let_def)
  define p2 where "p2 = create_routes p1 (table_id nt) gid (rq_routes t)"
  obtain p3 r where a: "associate_subnets p2 (table_id nt) (rq_subnets t) sm = (p3, r)"
    by (cases "associate_subnets p2 (table_id nt) (rq_subnets t) sm")
  from create_routes_calls [of p1 "table_id nt" gid "rq_routes t"] obtain cs2 where
    c2: "calls p2 = calls p1 @ cs2" "\<forall>c\<in>set cs2. \<not> mutates_existing c"
    unfolding p2_def by blast
  from associate_subnets_calls [of p2 "table_id nt" "rq_subnets t" sm] a obtain cs3 where
    c3: "calls p3 = calls p2 @ cs3" "\<forall>c\<in>set cs3. \<not> mutates_existing c" by auto
  have p3: "calls p3 = calls p @ (CreateRouteTable (vpc_ident v) # cs2 @ cs3)"
    using c1 c2 c3 by simp
  show ?case
  proof (cases r)
    case (Inl e)
    with crt a have "fst (create_tables_loop p v gid (t # ts) sm acc) = p3"
      by (simp add: p2_def)
    with p3 c2 c3 show ?thesis
      by (auto intro!: exI [of _ "CreateRouteTable (vpc_ident v) # cs2 @ cs3"])
  next
    case (Inr u)
    with crt a have step: "create_tables_loop p v gid (t # ts) sm acc
        = create_tables_loop p3 v gid ts sm (acc @ [nt])"
      by (simp add: p2_def)
    from Cons [of p3 "acc @ [nt]"] obtain cs where
      "calls (fst (create_tables_loop p3 v gid ts sm (acc @ [nt]))) = calls p3 @ cs"
      "\<forall>c\<in>set cs. \<not> mutates_existing c" by blast
    with p3 c2 c3 show ?thesis unfolding step
      by (auto intro!: exI [of _ "CreateRouteTable (vpc_ident v) # cs2 @ cs3 @ cs"])
  qed
qed

lemma distinct_concat_map_inj:
  "distinct (concat (map f xs)) \<Longrightarrow> x \<in> set xs \<Longrightarrow> y \<in> set xs \<Longrightarrow>
   a \<in> set (f x) \<Longrightarrow> a \<in> set (f y) \<Longrightarrow> x = y"
  by (induction xs) auto

section \<open>The main table\<close>

text \<open>
  Claim C5. In a run on a network whose table identifiers and association identifiers are
  distinct, take a live table that carries a main association. Whatever the run returns,
  the calls it adds to the log contain no deletion of that table and no disassociation of
  any of its associations. The table is not among the existing tables the planner works
  on, so a plan has it neither among the matched tables nor among the tables to delete
  (the tables to create are requested tables, not live ones). And \<open>delete_tables\<close>
  itself, given such a table, issues no deletion for it: it only disassociates the
  table's associations that are not main.
\<close>

theorem main_table_untouched:
  assumes run: "main_core state requested_tables v gateways sns p = (p', res)"
    and ids: "distinct (map table_id (live_tables p))"
    and aids: "distinct (concat (map (\<lambda>t. map association_id (associations t)) (live_tables p)))"
    and t: "t \<in> set (live_tables p)"
    and m: "\<exists>a\<in>set (associations t). main a"
  shows "(\<exists>cs. calls p' = calls p @ cs
            \<and> DeleteRouteTable (table_id t) \<notin> set cs
            \<and> (\<forall>a\<in>set (associations t). DisassociateRouteTable (association_id a) \<notin> set cs))
       \<and> t \<notin> set (filter (\<lambda>t. length (filter main (associations t)) = 0) (get_all_route_tables p))
       \<and> (plan_tables (filter (\<lambda>t. length (filter main (associations t)) = 0)
                         (get_all_route_tables p))
             requested_tables (subnet_mapper sns) gateways = Inr (matched_tables, old_tables, new_tables)
          \<longrightarrow> t \<notin> set matched_tables \<and> t \<notin> set old_tables)
       \<and> calls (delete_tables q [t]) =
           calls q @ map (\<lambda>a. DisassociateRouteTable (association_id a))
                       (filter (\<lambda>a. \<not> main a) (associations t))"
proof -
  define existing where
    "existing = filter (\<lambda>t. length (filter main (associations t)) = 0) (get_all_route_tables p)"
  have ex_sub: "set existing \<subseteq> set (live_tables p)"
    and ex_nomain: "\<And>u. u \<in> set existing \<Longrightarrow> \<not> (\<exists>a\<in>set (associations u). main a)"
    unfolding existing_def get_all_route_tables_def by (auto simp: filter_empty_conv)
  have notin: "t \<notin> set existing" using m ex_nomain by blast
  have pools: "t \<notin> set mt \<and> t \<notin> set ot"
    if "plan_tables existing requested_tables (subnet_mapper sns) gateways = Inr (mt, ot, nt)"
    for mt ot nt
    using plan_loop_subsets [OF that [unfolded plan_tables_def]] notin by auto
  have skip: "calls (delete_tables q [t]) =
           calls q @ map (\<lambda>a. DisassociateRouteTable (association_id a))
                       (filter (\<lambda>a. \<not> main a) (associations t))"
    by (subst delete_tables_calls) (use m in simp)
  have clean_old: "\<exists>ds. calls (delete_tables p ot) = calls p @ ds
        \<and> DeleteRouteTable (table_id t) \<notin> set ds
        \<and> (\<forall>a\<in>set (associations t). DisassociateRouteTable (association_id a) \<notin> set ds)"
    if sub: "set ot \<subseteq> set existing" for ot
  proof -
    define ds where "ds = concat (map (\<lambda>t.
       map (\<lambda>a. DisassociateRouteTable (association_id a)) (filter (\<lambda>a. \<not> main a) (associations t))
       @ (if \<exists>a\<in>set (associations t). main a then [] else [DeleteRouteTable (table_id t)])) ot)"
    have del: "\<exists>u\<in>set ot. tid = table_id u" if "DeleteRouteTable tid \<in> set ds" for tid
      using that unfolding ds_def by (auto split: if_splits)
    have dis: "\<exists>u\<in>set ot. \<exists>b\<in>set (associations u). aid = association_id b"
      if "DisassociateRouteTable aid \<in> set ds" for aid
      using that unfolding ds_def by (auto split: if_splits)
    have "DeleteRouteTable (table_id t) \<notin> set ds"
    proof
      assume "DeleteRouteTable (table_id t) \<in> set ds"
      from del [OF this] obtain u where u: "u \<in> set ot" "table_id t = table_id u" by blast
      with sub ex_sub have "u \<in> set (live_tables p)" by blast
      with ids t u(2) have "u = t" by (auto simp: distinct_map dest: inj_onD)
      with u(1) sub notin show False by blast
    qed
    moreover have "DisassociateRouteTable (association_id a) \<notin> set ds"
      if a: "a \<in> set (associations t)" for a
    proof
      assume "DisassociateRouteTable (association_id a) \<in> set ds"
      from dis [OF this] obtain u b where u: "u \<in> set ot" "b \<in> set (associations u)"
        "association_id a = association_id b" by blast
      with sub ex_sub have ul: "u \<in> set (live_tables p)" by blast
      have "association_id a \<in> set (map association_id (associations u))"
        using u(2,3) by (metis image_eqI set_map)
      moreover have "association_id a \<in> set (map association_id (associations t))"
        using a by (metis image_eqI set_map)
      ultimately have "u = t"
        using distinct_concat_map_inj [OF aids ul t] by blast
      with u(1) sub notin show False by blast
    qed
    moreover have "calls (delete_tables p ot) = calls p @ ds"
      unfolding ds_def by (rule delete_tables_calls)
    ultimately show ?thesis by blast
  qed
  have main: "\<exists>cs. calls p' = calls p @ cs
            \<and> DeleteRouteTable (table_id t) \<notin> set cs
            \<and> (\<forall>a\<in>set (associations t). DisassociateRouteTable (association_id a) \<notin> set cs)"
  proof (cases "length gateways > 1")
    case True
    with run have "p' = p" by (simp add: main_core_def)
    then show ?thesis by simp
  next
    case short: False
    show ?thesis
    proof (cases "plan_tables existing requested_tables (subnet_mapper sns) gateways")
      case (Inl e)
      with run short have "p' = p" by (simp add: main_core_def existing_def)
      then show ?thesis by simp
    next
      case (Inr pl)
      obtain mt ot nt where pl: "pl = (mt, ot, nt)" by (cases pl)
      from plan_loop_subsets [OF Inr [unfolded plan_tables_def pl]]
      have "set ot \<subseteq> set existing" by simp
      note clean = clean_old [OF this]
      define p1 where "p1 = delete_tables p ot"
      from clean obtain ds where ds: "calls p1 = calls p @ ds"
        and ds_clean: "DeleteRouteTable (table_id t) \<notin> set ds"
        "\<forall>a\<in>set (associations t). DisassociateRouteTable (association_id a) \<notin> set ds"
        unfolding p1_def by blast
      show ?thesis
      proof (cases gateways)
        case Nil
        with run short Inr pl have "p' = p1"
          by (simp add: main_core_def existing_def p1_def Let_def)
        with ds ds_clean show ?thesis by blast
      next
        case (Cons g gs)
        from create_tables_loop_calls [of p1 v "igw_id g" nt "subnet_mapper sns" "[]"]
        obtain cs where cs: "calls (fst (create_tables p1 v (igw_id g) nt (subnet_mapper sns)))
            = calls p1 @ cs" "\<forall>c\<in>set cs. \<not> mutates_existing c"
          unfolding create_tables_def by blast
        from run short Inr pl Cons
        have "p' = fst (create_tables p1 v (igw_id g) nt (subnet_mapper sns))"
          by (auto simp: main_core_def existing_def p1_def Let_def split: prod.splits sum.splits)
        with cs ds have "calls p' = calls p @ (ds @ cs)" by simp
        moreover have "DeleteRouteTable (table_id t) \<notin> set (ds @ cs)"
          using ds_clean cs(2) by auto
        moreover have "\<forall>a\<in>set (associations t).
            DisassociateRouteTable (association_id a) \<notin> set (ds @ cs)"
          using ds_clean cs(2) by auto
        ultimately show ?thesis by blast
      qed
    qed
  qed
  from main notin pools skip show ?thesis unfolding existing_def by blast
qed

theorem main_table_untouched_witness:
  "distinct (map table_id (live_tables ex_live_provider))
   \<and> distinct (concat (map (\<lambda>t. map association_id (associations t)) (live_tables ex_live_provider)))
   \<and> ex_main_table \<in> set (live_tables ex_live_provider)
   \<and> (\<exists>a\<in>set (associations ex_main_table). main a)
   \<and> calls (fst (main_core Present [] ex_vpc [ex_gateway] [ex_subnet] ex_live_provider))
       = [DisassociateRouteTable ''rtbassoc-9'', DeleteRouteTable ''rtb-9'']
   \<and> plan_tables (filter (\<lambda>t. length (filter main (associations t)) = 0)
                     (get_all_route_tables ex_live_provider))
        [] (subnet_mapper [ex_subnet]) [ex_gateway] = Inr ([], [ex_live_table], [])
   \<and> ex_main_table \<notin> set [ex_live_table]
   \<and> (\<exists>cs. calls (fst (main_core Present [] ex_vpc [ex_gateway] [ex_subnet] ex_live_provider))
              = calls ex_live_provider @ cs
            \<and> DeleteRouteTable (table_id ex_main_table) \<notin> set cs
            \<and> (\<forall>a\<in>set (associations ex_main_table).
                  DisassociateRouteTable (association_id a) \<notin> set cs))"
proof -
  have run: "main_core Present [] ex_vpc [ex_gateway] [ex_subnet] ex_live_provider
     = (fst (main_core Present [] ex_vpc [ex_gateway] [ex_subnet] ex_live_provider),
        snd (main_core Present [] ex_vpc [ex_gateway] [ex_subnet] ex_live_provider))"
    by simp
  have ids: "distinct (map table_id (live_tables ex_live_provider))"
    and aids: "distinct (concat (map (\<lambda>t. map association_id (associations t))
                 (live_tables ex_live_provider)))"
    and t: "ex_main_table \<in> set (live_tables ex_live_provider)"
    and m: "\<exists>a\<in>set (associations ex_main_table). main a"
    by (simp_all add: ex_defs)
  have c: "calls (fst (main_core Present [] ex_vpc [ex_gateway] [ex_subnet] ex_live_provider))
       = [DisassociateRouteTable ''rtbassoc-9'', DeleteRouteTable ''rtb-9'']"
    by (simp add: ex_defs run_defs)
  have pl: "plan_tables (filter (\<lambda>t. length (filter main (associations t)) = 0)
                     (get_all_route_tables ex_live_provider))
        [] (subnet_mapper [ex_subnet]) [ex_gateway] = Inr ([], [ex_live_table], [])"
    by (simp add: ex_defs run_defs)
  from main_table_untouched [OF run ids aids t m, of "[]" "[ex_live_table]" "[]" ex_provider]
    ids aids t m c pl
  show ?thesis by blast
qed

section \<open>Runs on the example network\<close>

text \<open>
  Claim C1. Two live tables each satisfy the requested table, and the table is requested
  twice. A scan over the live tables not yet matched would pair the second request with
  the second live table and leave nothing to delete or to create. The scan of the
  second request runs over all existing tables again, returns the first live table
  again, and the planner ends in the \<open>ValueError\<close> of removing it a second time.
\<close>

theorem second_scan_returns_matched_table:
  "find_matching_table [ex_plain_table, ex_other_table] ex_plain_requested
     (subnet_mapper [ex_subnet]) ex_gateway = Inr (Some ex_plain_table)
   \<and> find_matching_table [ex_other_table] ex_plain_requested
     (subnet_mapper [ex_subnet]) ex_gateway = Inr (Some ex_other_table)
   \<and> plan_tables [ex_plain_table, ex_other_table] ex_twice (subnet_mapper [ex_subnet])
       [ex_gateway] = Inl ValueError"
  by (simp add: ex_defs run_defs)

text \<open>
  Claim C4. The same table is requested twice, with no subnet, so every subnet reference
  resolves. The first run, on a network with only its main table, creates two tables and
  reports a change. The second run, on the state the first one left, does not report
  \<open>changed = False\<close>: it ends in \<open>ValueError\<close>, with the provider state untouched.
\<close>

theorem second_run_aborts:
  "main_core Present ex_twice ex_vpc [ex_gateway] [ex_subnet] ex_provider
     = (ex_after_first,
        Inr \<lparr>changed = True, route_tables = format_response (live_tables ex_after_first)\<rparr>)
   \<and> main_core Present ex_twice ex_vpc [ex_gateway] [ex_subnet] ex_after_first
     = (ex_after_first, Inl ValueError)"
  by (simp add: ex_defs run_defs)

text \<open>
  Claim C8. The run does not depend on the parameter \<open>state\<close>: with \<open>absent\<close> it does
  what it does with \<open>present\<close>. On a network with one table beside the main one, a run
  with \<open>absent\<close> and that table requested makes no call and leaves the table in place.
\<close>

theorem state_absent_reconciles:
  "main_core Absent requested_tables v gateways sns p
     = main_core Present requested_tables v gateways sns p
   \<and> main_core Absent [ex_requested] ex_vpc [ex_gateway] [ex_subnet] ex_live_provider
     = (ex_live_provider,
        Inr \<lparr>changed = False, route_tables = format_response [ex_main_table, ex_live_table]\<rparr>)"
  by (simp add: ex_defs run_defs)

end
